theory Spec2Isabelle
  imports Main
begin

section \<open>convert\_image\_to\_rgb10.py: an image as 10-bit RGB\<close>

text \<open>
  The script \<^verbatim>\<open>src/tools/convert_image_to_rgb10.py\<close> has one function, \<^verbatim>\<open>main\<close>. It reads
  \<^verbatim>\<open>sys.argv\<close>, decodes an image with Pillow, appends three 10-bit fields per pixel to a
  \<^verbatim>\<open>bitstring.BitArray\<close> and writes the array's \<^verbatim>\<open>bytes\<close> to the output file.

  The embedding follows the script statement by statement. Python integers are \<open>int\<close>,
  a bit array is a \<open>bool list\<close> whose head is the first bit of the stream, a byte is a
  natural number below 256, every exception is a value of \<open>error\<close>, and the effects of
  the script on the console and on the file system are an explicit \<open>world\<close>.

  The embedding starts where \<^verbatim>\<open>main()\<close> is called, with Pillow and bitstring imported.
  Pillow yields channel values in [0, 255] for an image converted to RGB; the type of a
  pixel here is wider, so that the behaviour on any other value can be stated.
\<close>

subsection \<open>Exceptions and process outcomes\<close>

datatype error =
    CreationError    \<comment> \<open>\<^verbatim>\<open>bitstring.CreationError\<close>\<close>
  | InterpretError   \<comment> \<open>\<^verbatim>\<open>bitstring.InterpretError\<close>\<close>
  | IndexError       \<comment> \<open>\<^verbatim>\<open>sys.argv[0]\<close> on an empty list\<close>
  | ImageError       \<comment> \<open>whatever \<^verbatim>\<open>Image.open(...).convert("RGB")\<close> raises\<close>
  | OSError          \<comment> \<open>\<^verbatim>\<open>open(output_path, "wb")\<close> fails\<close>

datatype outcome =
    Returned         \<comment> \<open>\<^verbatim>\<open>main()\<close> returned\<close>
  | Exit nat         \<comment> \<open>\<^verbatim>\<open>sys.exit(n)\<close>\<close>
  | Raised error     \<comment> \<open>an exception left \<^verbatim>\<open>main()\<close>\<close>

fun exit_code :: "outcome \<Rightarrow> nat" where
  "exit_code Returned = 0"
| "exit_code (Exit n) = n"
| "exit_code (Raised e) = 1"

subsection \<open>The part of the bitstring library the script calls\<close>

text \<open>
  \<^verbatim>\<open>bitstring.Bits(uint=u, length=n)\<close> is the \<open>n\<close>-bit unsigned big-endian binary
  representation of \<open>u\<close>. The constructor raises \<^verbatim>\<open>CreationError\<close> when the length is
  zero, when \<open>u \<ge> 2 ^ n\<close> and when \<open>u\<close> is negative, in this order.
\<close>

type_synonym bits = "bool list"
type_synonym byte = nat

fun uint_bits :: "nat \<Rightarrow> int \<Rightarrow> bits" where
  "uint_bits 0 u = []"
| "uint_bits (Suc n) u = uint_bits n (u div 2) @ [odd u]"

definition Bits :: "int \<Rightarrow> nat \<Rightarrow> error + bits" where
  "Bits u len =
     (if len = 0 then Inl CreationError
      else if u \<ge> 2 ^ len then Inl CreationError
      else if u < 0 then Inl CreationError
      else Inr (uint_bits len u))"

text \<open>
  The property \<^verbatim>\<open>uint\<close> of the library reads a bit array back as an unsigned
  big-endian number.
\<close>

definition uint_of :: "bits \<Rightarrow> nat" where
  "uint_of bs = foldl (\<lambda>a b. 2 * a + (if b then 1 else 0)) 0 bs"

text \<open>
  The property \<^verbatim>\<open>bytes\<close> raises \<^verbatim>\<open>InterpretError\<close> when the length of the array is not a
  multiple of 8 (the library's \<^verbatim>\<open>tobytes()\<close>, which the script does not call, is the
  variant that pads). Otherwise it is the array cut into groups of 8 bits, the first bit
  of a group being the most significant bit of its byte.
\<close>

fun readbytes :: "bits \<Rightarrow> byte list" where
  "readbytes bs = (if bs = [] then [] else uint_of (take 8 bs) # readbytes (drop 8 bs))"

declare readbytes.simps [simp del]

definition getbytes :: "bits \<Rightarrow> error + byte list" where
  "getbytes bs = (if length bs mod 8 \<noteq> 0 then Inl InterpretError else Inr (readbytes bs))"

subsection \<open>The decoded image\<close>

text \<open>
  \<^verbatim>\<open>image.size\<close> is the pair (width, height); \<^verbatim>\<open>image_data[x, y]\<close> is a tuple of three
  Python integers. The variable \<^verbatim>\<open>image\<close> of the script is \<open>img\<close> here.
\<close>

type_synonym pixel = "int \<times> int \<times> int"

record image =
  image_size :: "nat \<times> nat"
  image_data :: "nat \<times> nat \<Rightarrow> pixel"

subsection \<open>The two loops\<close>

text \<open>The body of the inner loop: lines 37 to 48 of the script.\<close>

fun pixel_body :: "pixel \<Rightarrow> bits \<Rightarrow> error + bits" where
  "pixel_body (p0, p1, p2) buffer =
     (case Bits (p0 * 4) 10 of Inl e \<Rightarrow> Inl e | Inr r \<Rightarrow>
     (case Bits (p1 * 4) 10 of Inl e \<Rightarrow> Inl e | Inr g \<Rightarrow>
     (case Bits (p2 * 4) 10 of Inl e \<Rightarrow> Inl e | Inr b \<Rightarrow>
        Inr (((buffer @ r) @ g) @ b))))"

text \<open>\<^verbatim>\<open>for x in range(image.size[0])\<close>, over the values of \<open>x\<close> still to come.\<close>

fun loop_x :: "image \<Rightarrow> nat \<Rightarrow> nat list \<Rightarrow> bits \<Rightarrow> error + bits" where
  "loop_x img y [] buffer = Inr buffer"
| "loop_x img y (x # xs) buffer =
     (case pixel_body (image_data img (x, y)) buffer of
        Inl e \<Rightarrow> Inl e
      | Inr buffer' \<Rightarrow> loop_x img y xs buffer')"

text \<open>\<^verbatim>\<open>for y in range(image.size[1])\<close>, over the values of \<open>y\<close> still to come.\<close>

fun loop_y :: "image \<Rightarrow> nat list \<Rightarrow> bits \<Rightarrow> error + bits" where
  "loop_y img [] buffer = Inr buffer"
| "loop_y img (y # ys) buffer =
     (case loop_x img y [0..<fst (image_size img)] buffer of
        Inl e \<Rightarrow> Inl e
      | Inr buffer' \<Rightarrow> loop_y img ys buffer')"

text \<open>Both loops, started on the empty \<^verbatim>\<open>BitArray(bytes())\<close>.\<close>

definition pack_loops :: "image \<Rightarrow> error + bits" where
  "pack_loops img = loop_y img [0..<snd (image_size img)] []"

subsection \<open>Console and file system\<close>

datatype event =
    Print string               \<comment> \<open>a line on standard output\<close>
  | Open string                \<comment> \<open>\<^verbatim>\<open>open(path, "wb")\<close>\<close>
  | Write string "byte list"   \<comment> \<open>\<^verbatim>\<open>output_file.write(...)\<close>\<close>
  | Close string               \<comment> \<open>leaving the \<^verbatim>\<open>with\<close> block\<close>

text \<open>
  \<open>decoded w p\<close> is the image that \<^verbatim>\<open>Image.open(p).convert("RGB")\<close> yields, or \<open>None\<close>
  when that raises; \<open>writable w p\<close> says whether \<^verbatim>\<open>open(p, "wb")\<close> succeeds; \<open>files w\<close>
  holds the content of every file, and \<open>events w\<close> is the log of what the script did.
\<close>

record world =
  decoded :: "string \<rightharpoonup> image"
  writable :: "string \<Rightarrow> bool"
  files :: "string \<rightharpoonup> byte list"
  events :: "event list"

definition print :: "string \<Rightarrow> world \<Rightarrow> world" where
  "print line w = w\<lparr>events := events w @ [Print line]\<rparr>"

text \<open>Mode \<^verbatim>\<open>"wb"\<close> creates the file or truncates it.\<close>

definition open_wb :: "string \<Rightarrow> world \<Rightarrow> world" where
  "open_wb path w = w\<lparr>files := (files w)(path \<mapsto> []), events := events w @ [Open path]\<rparr>"

definition file_write :: "string \<Rightarrow> byte list \<Rightarrow> world \<Rightarrow> world" where
  "file_write path bs w =
     w\<lparr>files := (files w)(path \<mapsto> (case files w path of None \<Rightarrow> bs | Some old \<Rightarrow> old @ bs)),
       events := events w @ [Write path bs]\<rparr>"

definition close :: "string \<Rightarrow> world \<Rightarrow> world" where
  "close path w = w\<lparr>events := events w @ [Close path]\<rparr>"

subsection \<open>Formatting\<close>

text \<open>\<^verbatim>\<open>str(n)\<close> for a natural number, as the f-strings of the script print it.\<close>

fun str_nat :: "nat \<Rightarrow> string" where
  "str_nat n =
     (if n < 10 then [''0123456789'' ! n]
      else str_nat (n div 10) @ [''0123456789'' ! (n mod 10)])"

declare str_nat.simps [simp del]

text \<open>\<^verbatim>\<open>str(image.size)\<close>, a tuple of two integers.\<close>

definition str_size :: "nat \<times> nat \<Rightarrow> string" where
  "str_size s = ''('' @ str_nat (fst s) @ '', '' @ str_nat (snd s) @ '')''"

text \<open>The three f-strings of the script.\<close>

definition usage_line :: "string \<Rightarrow> string" where
  "usage_line prog = ''Usage: '' @ prog @ '' INPUT_FILE OUTPUT_FILE''"

definition input_line :: "nat \<times> nat \<Rightarrow> string" where
  "input_line s = ''Input image size is '' @ str_size s @ '' bytes.''"

definition output_line :: "nat \<Rightarrow> string" where
  "output_line n = ''Output image size is '' @ str_nat n @ '' bytes.''"

subsection \<open>main\<close>

definition main :: "string list \<Rightarrow> world \<Rightarrow> outcome \<times> world" where
  "main argv w =
     (if length argv \<noteq> 3 then
        (case argv of
           [] \<Rightarrow> (Raised IndexError, w)
         | prog # _ \<Rightarrow>
             (Exit 1,
              print ''Converts an image to CDI 10-bit RGB format.''
                (print (usage_line prog) w)))
      else
        let input_path = argv ! 1;
            output_path = argv ! 2
        in
        (case decoded w input_path of
           None \<Rightarrow> (Raised ImageError, w)
         | Some img \<Rightarrow>
             let w1 = print (input_line (image_size img)) w
             in
             if \<not> writable w1 output_path then (Raised OSError, w1)
             else
               let w2 = open_wb output_path w1 in
               (case pack_loops img of
                  Inl e \<Rightarrow> (Raised e, close output_path w2)
                | Inr buffer \<Rightarrow>
                    (case getbytes buffer of
                       Inl e \<Rightarrow> (Raised e, close output_path w2)
                     | Inr counted \<Rightarrow>
                         let w3 = print (output_line (length counted)) w2
                         in
                         (case getbytes buffer of
                            Inl e \<Rightarrow> (Raised e, close output_path w3)
                          | Inr written \<Rightarrow>
                              (Returned, close output_path (file_write output_path written w3)))))))"

subsection \<open>The vocabulary of the specification\<close>

text \<open>
  A channel value is an unsigned 8-bit number, a pixel is valid when its three channels
  are, and a grid is valid when every pixel inside \<open>width \<times> height\<close> is.
\<close>

definition valid_channel :: "int \<Rightarrow> bool" where
  "valid_channel c = (0 \<le> c \<and> c \<le> 255)"

definition valid_pixel :: "pixel \<Rightarrow> bool" where
  "valid_pixel p = (case p of (r, g, b) \<Rightarrow> valid_channel r \<and> valid_channel g \<and> valid_channel b)"

definition width :: "image \<Rightarrow> nat" where
  "width img = fst (image_size img)"

definition height :: "image \<Rightarrow> nat" where
  "height img = snd (image_size img)"

definition grid_valid :: "image \<Rightarrow> bool" where
  "grid_valid img =
     (\<forall>y \<in> {0..<height img}. \<forall>x \<in> {0..<width img}. valid_pixel (image_data img (x, y)))"

text \<open>Two images with identical dimensions and identical pixels inside the grid.\<close>

definition same_grid :: "image \<Rightarrow> image \<Rightarrow> bool" where
  "same_grid a b =
     (image_size a = image_size b \<and>
      (\<forall>y \<in> {0..<height a}. \<forall>x \<in> {0..<width a}. image_data a (x, y) = image_data b (x, y)))"

text \<open>The pixel at row-major position \<open>N = y \<times> width + x\<close>.\<close>

definition pixel_at :: "image \<Rightarrow> nat \<Rightarrow> pixel" where
  "pixel_at img N = image_data img (N mod width img, N div width img)"

text \<open>A 10-bit field, most significant bit first, written without reference to the library.\<close>

definition spec_field10 :: "int \<Rightarrow> bits" where
  "spec_field10 v = map (\<lambda>i. bit v (9 - i)) [0..<10]"

definition spec_pixel_fields :: "pixel \<Rightarrow> bits" where
  "spec_pixel_fields p =
     (case p of (r, g, b) \<Rightarrow> spec_field10 (r * 4) @ spec_field10 (g * 4) @ spec_field10 (b * 4))"

text \<open>
  The Packed Bitstream of the specification: for every pixel in row-major order, three
  10-bit fields R, G, B, and nothing else.
\<close>

definition spec_bitstream :: "image \<Rightarrow> bits" where
  "spec_bitstream img =
     concat (map (\<lambda>N. spec_pixel_fields (pixel_at img N)) [0..<width img * height img])"

text \<open>A byte sequence read as bits, the most significant bit of each byte first.\<close>

definition spec_byte_bits :: "byte \<Rightarrow> bits" where
  "spec_byte_bits b = map (\<lambda>i. bit b (7 - i)) [0..<8]"

definition spec_bits_of_bytes :: "byte list \<Rightarrow> bits" where
  "spec_bits_of_bytes bs = concat (map spec_byte_bits bs)"

text \<open>
  What a run leaves behind: its outcome, the content of the output file \<^verbatim>\<open>sys.argv[2]\<close>
  and the events it added to the log.
\<close>

definition run_outcome :: "string list \<Rightarrow> world \<Rightarrow> outcome" where
  "run_outcome argv w = fst (main argv w)"

definition run_output :: "string list \<Rightarrow> world \<Rightarrow> byte list option" where
  "run_output argv w = files (snd (main argv w)) (argv ! 2)"

definition run_events :: "string list \<Rightarrow> world \<Rightarrow> event list" where
  "run_events argv w = drop (length (events w)) (events (snd (main argv w)))"

text \<open>
  A run that gets as far as the loops: three arguments, an input that decodes to \<open>img\<close>
  and an output path that can be opened.
\<close>

definition converts :: "string list \<Rightarrow> world \<Rightarrow> image \<Rightarrow> bool" where
  "converts argv w img =
     (length argv = 3 \<and> decoded w (argv ! 1) = Some img \<and> writable w (argv ! 2))"

subsection \<open>Sample inputs\<close>

definition argv_ex :: "string list" where
  "argv_ex = [''convert_image_to_rgb10.py'', ''in.png'', ''out.rgb10'']"

text \<open>A world where \<^verbatim>\<open>in.png\<close> decodes to \<open>img\<close> and \<^verbatim>\<open>out.rgb10\<close> already holds three bytes.\<close>

definition world_of :: "image \<Rightarrow> world" where
  "world_of img =
     \<lparr>decoded = [''in.png'' \<mapsto> img], writable = (\<lambda>p. True),
      files = [''out.rgb10'' \<mapsto> [1, 2, 3]], events = []\<rparr>"

definition image_1x1 :: image where
  "image_1x1 = \<lparr>image_size = (1, 1), image_data = (\<lambda>p. (255, 128, 0))\<rparr>"

definition image_3x1 :: image where
  "image_3x1 = \<lparr>image_size = (3, 1), image_data = (\<lambda>p. (0, 0, 255))\<rparr>"

definition image_1x2 :: image where
  "image_1x2 = \<lparr>image_size = (1, 2), image_data = (\<lambda>p. (255, 255, 255))\<rparr>"

definition image_2x2 :: image where
  "image_2x2 = \<lparr>image_size = (2, 2), image_data = (\<lambda>p. (255, 128 * int (fst p), int (snd p)))\<rparr>"

definition image_0x5 :: image where
  "image_0x5 = \<lparr>image_size = (0, 5), image_data = (\<lambda>p. (300, 0, 0))\<rparr>"

definition image_bad :: image where
  "image_bad = \<lparr>image_size = (2, 1), image_data = (\<lambda>p. (0, 256 * int (fst p), 0))\<rparr>"

text \<open>The image \<open>image_2x2\<close> with other values outside the grid.\<close>

definition image_2x2' :: image where
  "image_2x2' =
     \<lparr>image_size = (2, 2),
      image_data = (\<lambda>p. if fst p < 2 \<and> snd p < 2 then (255, 128 * int (fst p), int (snd p)) else (7, 7, 7))\<rparr>"

definition argv_ex' :: "string list" where
  "argv_ex' = [''./convert'', ''photo.bmp'', ''photo.raw'']"

definition world_of' :: "image \<Rightarrow> world" where
  "world_of' img =
     \<lparr>decoded = [''photo.bmp'' \<mapsto> img], writable = (\<lambda>p. p = ''photo.raw''),
      files = Map.empty, events = [Print ''earlier'']\<rparr>"

section \<open>Properties\<close>

subsection \<open>Bit fields\<close>

lemma length_uint_bits: "length (uint_bits n u) = n"
  by (induction n arbitrary: u) simp_all

lemma uint_of_Nil: "uint_of [] = 0"
  by (simp add: uint_of_def)

lemma uint_of_snoc: "uint_of (bs @ [b]) = 2 * uint_of bs + (if b then 1 else 0)"
  by (simp add: uint_of_def)

lemma uint_of_uint_bits: "0 \<le> u \<Longrightarrow> int (uint_of (uint_bits n u)) = u mod 2 ^ n"
proof (induction n arbitrary: u)
  case 0
  then show ?case by (simp add: uint_of_Nil)
next
  case (Suc n)
  have "0 \<le> u div 2" using Suc.prems by simp
  from Suc.IH [OF this] have ih: "int (uint_of (uint_bits n (u div 2))) = u div 2 mod 2 ^ n" .
  have "u mod 2 ^ Suc n = 2 * (u div 2 mod 2 ^ n) + u mod 2"
    using zmod_zmult2_eq [of "2 ^ n" u 2] by simp
  then show ?case using ih by (simp add: uint_of_snoc odd_iff_mod_2_eq_one)
qed

lemma uint_bits_nth: "i < n \<Longrightarrow> uint_bits n u ! i = bit u (n - 1 - i)"
proof (induction n arbitrary: u i)
  case 0
  then show ?case by simp
next
  case (Suc n)
  show ?case
  proof (cases "i < n")
    case True
    then have "n - i = Suc (n - 1 - i)" by simp
    with True Suc.IH [of i "u div 2"] show ?thesis
      by (simp add: nth_append bit_Suc length_uint_bits)
  next
    case False
    with Suc.prems have "i = n" by simp
    then show ?thesis by (simp add: nth_append bit_0 length_uint_bits)
  qed
qed

lemma length_spec_field10: "length (spec_field10 v) = 10"
  by (simp add: spec_field10_def)

lemma uint_bits_10: "uint_bits 10 v = spec_field10 v"
proof (rule nth_equalityI)
  show "length (uint_bits 10 v) = length (spec_field10 v)"
    by (simp add: length_uint_bits length_spec_field10)
next
  fix i assume "i < length (uint_bits 10 v)"
  then have i: "i < 10" by (simp add: length_uint_bits)
  then have "spec_field10 v ! i = bit v (9 - i)"
    by (simp add: spec_field10_def del: upt_Suc)
  with i show "uint_bits 10 v ! i = spec_field10 v ! i"
    by (simp add: uint_bits_nth)
qed

lemma Bits_channel:
  "Bits (c * 4) 10 = (if valid_channel c then Inr (spec_field10 (c * 4)) else Inl CreationError)"
  by (auto simp: Bits_def valid_channel_def uint_bits_10)

lemma pixel_body_eq:
  "pixel_body p buffer =
     (if valid_pixel p then Inr (buffer @ spec_pixel_fields p) else Inl CreationError)"
  by (cases p) (simp add: Bits_channel valid_pixel_def spec_pixel_fields_def)

lemma length_spec_pixel_fields: "length (spec_pixel_fields p) = 30"
  by (cases p) (simp add: spec_pixel_fields_def length_spec_field10)

subsection \<open>The loops\<close>

lemma loop_x_eq:
  "loop_x img y xs buffer =
     (if \<forall>x \<in> set xs. valid_pixel (image_data img (x, y))
      then Inr (buffer @ concat (map (\<lambda>x. spec_pixel_fields (image_data img (x, y))) xs))
      else Inl CreationError)"
  by (induction xs arbitrary: buffer) (simp_all add: pixel_body_eq)

lemma loop_y_eq:
  "loop_y img ys buffer =
     (if \<forall>y \<in> set ys. \<forall>x \<in> {0..<width img}. valid_pixel (image_data img (x, y))
      then Inr (buffer @ concat (map (\<lambda>y. concat (map (\<lambda>x. spec_pixel_fields (image_data img (x, y))) [0..<width img])) ys))
      else Inl CreationError)"
  by (induction ys arbitrary: buffer) (simp_all add: loop_x_eq width_def)

lemma upt_next_row: "[0..<W * Suc H] = [0..<W * H] @ map (\<lambda>x. x + W * H) [0..<W]"
proof -
  have "[0..<W * Suc H] = [0..<W * H + W]"
    by (simp only: mult_Suc_right add.commute)
  also have "\<dots> = [0..<W * H] @ [W * H..<W * H + W]"
    by (rule upt_add_eq_append) simp
  also have "[W * H..<W * H + W] = map (\<lambda>x. x + W * H) [0..<W]"
    by (simp only: map_add_upt add.commute)
  finally show ?thesis .
qed

lemma concat_rows:
  "concat (map (\<lambda>y. concat (map (\<lambda>x. f (x, y)) [0..<W])) [0..<H]) =
   concat (map (\<lambda>N. f (N mod W, N div W)) [0..<W * H])"
proof (induction H)
  case 0
  then show ?case by simp
next
  case (Suc H)
  have row: "map (\<lambda>N. f (N mod W, N div W)) (map (\<lambda>x. x + W * H) [0..<W]) = map (\<lambda>x. f (x, H)) [0..<W]"
    by (rule nth_equalityI) simp_all
  have "concat (map (\<lambda>N. f (N mod W, N div W)) [0..<W * Suc H]) =
        concat (map (\<lambda>N. f (N mod W, N div W)) [0..<W * H]) @ concat (map (\<lambda>x. f (x, H)) [0..<W])"
    by (simp only: upt_next_row map_append concat_append row)
  moreover have "concat (map (\<lambda>y. concat (map (\<lambda>x. f (x, y)) [0..<W])) [0..<Suc H]) =
        concat (map (\<lambda>y. concat (map (\<lambda>x. f (x, y)) [0..<W])) [0..<H]) @ concat (map (\<lambda>x. f (x, H)) [0..<W])"
    by simp
  ultimately show ?case using Suc.IH by simp
qed

lemma pack_loops_eq:
  "pack_loops img = (if grid_valid img then Inr (spec_bitstream img) else Inl CreationError)"
proof -
  have "concat (map (\<lambda>y. concat (map (\<lambda>x. spec_pixel_fields (image_data img (x, y))) [0..<width img])) [0..<height img])
        = spec_bitstream img"
    unfolding spec_bitstream_def pixel_at_def
    by (rule concat_rows [of "\<lambda>p. spec_pixel_fields (image_data img p)"])
  then show ?thesis
    by (simp add: pack_loops_def loop_y_eq grid_valid_def height_def [symmetric])
qed

subsection \<open>The bitstream\<close>

lemma length_concat_uniform:
  "\<forall>b \<in> set bls. length b = k \<Longrightarrow> length (concat bls) = k * length bls"
  by (induction bls) simp_all

lemma take_drop_concat_uniform:
  "\<forall>b \<in> set bls. length b = k \<Longrightarrow> i < length bls \<Longrightarrow> take k (drop (k * i) (concat bls)) = bls ! i"
proof (induction bls arbitrary: i)
  case Nil
  then show ?case by simp
next
  case (Cons b bls)
  show ?case
  proof (cases i)
    case 0
    with Cons.prems show ?thesis by simp
  next
    case (Suc j)
    with Cons.prems have "take k (drop (k * j) (concat bls)) = bls ! j"
      by (intro Cons.IH) simp_all
    with Suc Cons.prems show ?thesis by simp
  qed
qed

lemma length_spec_bitstream: "length (spec_bitstream img) = 30 * (width img * height img)"
  unfolding spec_bitstream_def
  by (subst length_concat_uniform [where k = 30]) (simp_all add: length_spec_pixel_fields)

lemma spec_bitstream_span:
  assumes "N < width img * height img"
  shows "take 30 (drop (30 * N) (spec_bitstream img)) = spec_pixel_fields (pixel_at img N)"
  unfolding spec_bitstream_def
  using assms
  by (subst take_drop_concat_uniform [where k = 30]) (simp_all add: length_spec_pixel_fields)

subsection \<open>Bytes\<close>

lemma ceil8_step: "0 < (n::nat) \<Longrightarrow> Suc ((n - 8 + 7) div 8) = (n + 7) div 8"
proof (cases "n < 8")
  case True
  assume "0 < n"
  with True have "(n + 7) div 8 = 1" by (simp add: div_nat_eqI)
  with True show ?thesis by simp
next
  case False
  then obtain m where "n = m + 8" by (metis add.commute le_Suc_ex not_less)
  then show ?thesis by simp
qed

lemma length_readbytes: "length (readbytes bs) = (length bs + 7) div 8"
proof (induction bs rule: readbytes.induct)
  case (1 bs)
  show ?case
  proof (cases "bs = []")
    case True
    then show ?thesis by (subst readbytes.simps) simp
  next
    case False
    then have "length (readbytes bs) = Suc ((length bs - 8 + 7) div 8)"
      using 1 by (subst readbytes.simps) simp
    moreover have "0 < length bs" using False by simp
    ultimately show ?thesis by (simp only: ceil8_step)
  qed
qed

lemma uint_of_bound: "uint_of bs < 2 ^ length bs"
proof (induction bs rule: rev_induct)
  case Nil
  then show ?case by (simp add: uint_of_Nil)
next
  case (snoc b bs)
  then have "2 * uint_of bs + 1 < 2 * 2 ^ length bs" by simp
  then show ?case by (simp add: uint_of_snoc)
qed

lemma readbytes_bound: "b \<in> set (readbytes bs) \<Longrightarrow> b < 256"
proof (induction bs rule: readbytes.induct)
  case (1 bs)
  show ?case
  proof (cases "bs = []")
    case True
    with "1.prems" show ?thesis by (subst (asm) readbytes.simps) simp
  next
    case False
    have "uint_of (take 8 bs) < 2 ^ length (take 8 bs)"
      by (rule uint_of_bound)
    also have "\<dots> \<le> (2::nat) ^ 8"
      by (rule power_increasing) simp_all
    finally have h: "uint_of (take 8 bs) < 256" by simp
    from "1.prems" False have "b = uint_of (take 8 bs) \<or> b \<in> set (readbytes (drop 8 bs))"
      by (subst (asm) readbytes.simps) simp
    with h "1.IH" [OF False] show ?thesis by blast
  qed
qed

lemma bit_uint_of: "i < length bs \<Longrightarrow> bit (uint_of bs) (length bs - 1 - i) = bs ! i"
proof (induction bs arbitrary: i rule: rev_induct)
  case Nil
  then show ?case by simp
next
  case (snoc b bs)
  show ?case
  proof (cases "i < length bs")
    case True
    then have "length bs - i = Suc (length bs - 1 - i)" by simp
    with True snoc.IH [of i] show ?thesis
      by (simp add: uint_of_snoc nth_append bit_Suc)
  next
    case False
    with snoc.prems have "i = length bs" by simp
    then show ?thesis by (simp add: uint_of_snoc nth_append bit_0)
  qed
qed

lemma spec_byte_bits_uint_of: "length bs = 8 \<Longrightarrow> spec_byte_bits (uint_of bs) = bs"
proof (rule nth_equalityI)
  assume "length bs = 8"
  then show "length (spec_byte_bits (uint_of bs)) = length bs"
    by (simp add: spec_byte_bits_def)
next
  fix i
  assume len: "length bs = 8" and "i < length (spec_byte_bits (uint_of bs))"
  then have i: "i < 8" by (simp add: spec_byte_bits_def)
  then have "spec_byte_bits (uint_of bs) ! i = bit (uint_of bs) (7 - i)"
    by (simp add: spec_byte_bits_def del: upt_Suc)
  also have "\<dots> = bs ! i"
    using bit_uint_of [of i bs] i len by simp
  finally show "spec_byte_bits (uint_of bs) ! i = bs ! i" .
qed

lemma bits_of_readbytes:
  "length bs mod 8 = 0 \<Longrightarrow> spec_bits_of_bytes (readbytes bs) = bs"
proof (induction bs rule: readbytes.induct)
  case (1 bs)
  show ?case
  proof (cases "bs = []")
    case True
    then show ?thesis by (subst readbytes.simps) (simp add: spec_bits_of_bytes_def)
  next
    case False
    with "1.prems" have len: "8 \<le> length bs" by (cases "length bs < 8") auto
    then have l8: "length (take 8 bs) = 8" by simp
    have "(length bs - 8) mod 8 = 0" using "1.prems" len by presburger
    then have ih: "spec_bits_of_bytes (readbytes (drop 8 bs)) = drop 8 bs"
      using "1.IH" [OF False] by simp
    have "spec_bits_of_bytes (readbytes bs) =
          spec_byte_bits (uint_of (take 8 bs)) @ spec_bits_of_bytes (readbytes (drop 8 bs))"
      using False by (subst readbytes.simps) (simp add: spec_bits_of_bytes_def)
    then show ?thesis
      by (simp only: ih spec_byte_bits_uint_of [OF l8] append_take_drop_id)
  qed
qed

subsection \<open>A run of main\<close>

lemma main_converts:
  assumes "converts argv w img"
  shows "main argv w =
     (let out = argv ! 2;
          w2 = open_wb out (print (input_line (image_size img)) w)
      in case pack_loops img of
           Inl e \<Rightarrow> (Raised e, close out w2)
         | Inr buffer \<Rightarrow>
             if length buffer mod 8 \<noteq> 0 then (Raised InterpretError, close out w2)
             else (Returned,
                   close out (file_write out (readbytes buffer)
                     (print (output_line (length (readbytes buffer))) w2))))"
  using assms
  by (simp add: main_def converts_def Let_def getbytes_def print_def split: sum.split)

subsection \<open>The three ways a conversion ends\<close>

lemma run_fail:
  assumes "converts argv w img" and "pack_loops img = Inl e"
  shows "main argv w =
     (Raised e,
      w\<lparr>files := (files w)(argv ! 2 \<mapsto> []),
        events := events w @ [Print (input_line (image_size img)), Open (argv ! 2), Close (argv ! 2)]\<rparr>)"
  using assms(2)
  by (simp add: main_converts [OF assms(1)] Let_def open_wb_def print_def close_def)

lemma run_unaligned:
  assumes "converts argv w img" and "pack_loops img = Inr buffer" and "length buffer mod 8 \<noteq> 0"
  shows "main argv w =
     (Raised InterpretError,
      w\<lparr>files := (files w)(argv ! 2 \<mapsto> []),
        events := events w @ [Print (input_line (image_size img)), Open (argv ! 2), Close (argv ! 2)]\<rparr>)"
  using assms(2,3)
  by (simp add: main_converts [OF assms(1)] Let_def open_wb_def print_def close_def)

lemma run_aligned:
  assumes "converts argv w img" and "pack_loops img = Inr buffer" and "length buffer mod 8 = 0"
  shows "main argv w =
     (Returned,
      w\<lparr>files := (files w)(argv ! 2 \<mapsto> readbytes buffer),
        events := events w @
          [Print (input_line (image_size img)), Open (argv ! 2),
           Print (output_line (length (readbytes buffer))),
           Write (argv ! 2) (readbytes buffer), Close (argv ! 2)]\<rparr>)"
  using assms(2,3)
  by (simp add: main_converts [OF assms(1)] Let_def open_wb_def print_def close_def file_write_def)

lemma bits_mod_8: "(n * 30) mod 8 = 0 \<longleftrightarrow> n mod 4 = (0::nat)"
  by presburger


subsection \<open>The sample inputs\<close>

lemma converts_world_of: "converts argv_ex (world_of img) img"
  by (simp add: converts_def argv_ex_def world_of_def)

lemma converts_world_of': "converts argv_ex' (world_of' img) img"
  by (simp add: converts_def argv_ex'_def world_of'_def)

lemma valid_2x2: "grid_valid image_2x2"
  by (auto simp: grid_valid_def image_2x2_def width_def height_def valid_pixel_def valid_channel_def)

lemma valid_1x1: "grid_valid image_1x1"
  by (simp add: grid_valid_def image_1x1_def width_def height_def valid_pixel_def valid_channel_def)

lemma valid_3x1: "grid_valid image_3x1"
  by (simp add: grid_valid_def image_3x1_def width_def height_def valid_pixel_def valid_channel_def)

lemma valid_1x2: "grid_valid image_1x2"
  by (simp add: grid_valid_def image_1x2_def width_def height_def valid_pixel_def valid_channel_def)

lemma invalid_bad: "\<not> grid_valid image_bad"
proof
  assume "grid_valid image_bad"
  then have "\<forall>y \<in> {0..<height image_bad}. \<forall>x \<in> {0..<width image_bad}.
               valid_pixel (image_data image_bad (x, y))"
    by (simp only: grid_valid_def)
  moreover have "0 \<in> {0..<height image_bad}" and "1 \<in> {0..<width image_bad}"
    by (simp_all add: image_bad_def width_def height_def)
  ultimately have "valid_pixel (image_data image_bad (1, 0))"
    by blast
  then show False
    by (simp add: image_bad_def valid_pixel_def valid_channel_def)
qed

subsection \<open>Layout of the bitstream\<close>

lemma field_of_span:
  assumes "take 30 (drop k bs) = f0 @ f1 @ f2"
    and "length f0 = 10" and "length f1 = 10" and "length f2 = 10"
  shows "take 10 (drop k bs) = f0 \<and> take 10 (drop (k + 10) bs) = f1 \<and> take 10 (drop (k + 20) bs) = f2"
proof -
  have a: "take 10 (drop k bs) = take 10 (take 30 (drop k bs))"
    by simp
  have b: "take 10 (drop (k + 10) bs) = take 10 (drop 10 (take 30 (drop k bs)))"
    by (simp add: drop_take add.commute)
  have c: "take 10 (drop (k + 20) bs) = take 10 (drop 20 (take 30 (drop k bs)))"
    by (simp add: drop_take add.commute)
  show ?thesis
    unfolding a b c assms(1) using assms(2-4) by simp
qed

text \<open>
  C1. For a grid of 8-bit pixels the accumulated bit array is the bitstream of the
  specification: \<open>width \<times> height \<times> 30\<close> bits, and for every row-major index \<open>N\<close> the three
  10-bit fields at bit offsets \<open>N * 30\<close>, \<open>N * 30 + 10\<close> and \<open>N * 30 + 20\<close> are R, G and B of
  pixel \<open>N\<close>, most significant bit first.
\<close>

theorem C1_bitstream_layout:
  assumes "grid_valid img"
  shows "\<exists>buffer. pack_loops img = Inr buffer \<and> buffer = spec_bitstream img
           \<and> length buffer = width img * height img * 30
           \<and> (\<forall>N < width img * height img.
                 case pixel_at img N of (r, g, b) \<Rightarrow>
                   take 10 (drop (N * 30) buffer) = spec_field10 (r * 4)
                 \<and> take 10 (drop (N * 30 + 10) buffer) = spec_field10 (g * 4)
                 \<and> take 10 (drop (N * 30 + 20) buffer) = spec_field10 (b * 4))"
proof -
  have run: "pack_loops img = Inr (spec_bitstream img)"
    using assms by (simp add: pack_loops_eq)
  have len: "length (spec_bitstream img) = width img * height img * 30"
    by (simp add: length_spec_bitstream)
  have fields: "case pixel_at img N of (r, g, b) \<Rightarrow>
                   take 10 (drop (N * 30) (spec_bitstream img)) = spec_field10 (r * 4)
                 \<and> take 10 (drop (N * 30 + 10) (spec_bitstream img)) = spec_field10 (g * 4)
                 \<and> take 10 (drop (N * 30 + 20) (spec_bitstream img)) = spec_field10 (b * 4)"
    if "N < width img * height img" for N
  proof -
    obtain r g b where p: "pixel_at img N = (r, g, b)"
      by (cases "pixel_at img N") auto
    have "take 30 (drop (N * 30) (spec_bitstream img)) =
          spec_field10 (r * 4) @ spec_field10 (g * 4) @ spec_field10 (b * 4)"
      using spec_bitstream_span [OF that] p
      by (simp add: spec_pixel_fields_def mult.commute)
    from field_of_span [OF this] show ?thesis
      by (simp add: p length_spec_field10)
  qed
  from run len fields show ?thesis by blast
qed

theorem C1_bitstream_layout_witness:
  "grid_valid image_2x2 \<and>
   (\<exists>buffer. pack_loops image_2x2 = Inr buffer \<and> buffer = spec_bitstream image_2x2
           \<and> length buffer = width image_2x2 * height image_2x2 * 30
           \<and> (\<forall>N < width image_2x2 * height image_2x2.
                 case pixel_at image_2x2 N of (r, g, b) \<Rightarrow>
                   take 10 (drop (N * 30) buffer) = spec_field10 (r * 4)
                 \<and> take 10 (drop (N * 30 + 10) buffer) = spec_field10 (g * 4)
                 \<and> take 10 (drop (N * 30 + 20) buffer) = spec_field10 (b * 4)))"
  using C1_bitstream_layout [OF valid_2x2] valid_2x2 by simp

subsection \<open>Runs on a grid of 8-bit pixels\<close>

lemma run_valid_unaligned:
  assumes "converts argv w img" and "grid_valid img" and "width img * height img mod 4 \<noteq> 0"
  shows "main argv w =
     (Raised InterpretError,
      w\<lparr>files := (files w)(argv ! 2 \<mapsto> []),
        events := events w @ [Print (input_line (image_size img)), Open (argv ! 2), Close (argv ! 2)]\<rparr>)"
proof (rule run_unaligned [OF assms(1)])
  show "pack_loops img = Inr (spec_bitstream img)"
    using assms(2) by (simp add: pack_loops_eq)
  have "length (spec_bitstream img) = width img * height img * 30"
    by (simp add: length_spec_bitstream)
  then show "length (spec_bitstream img) mod 8 \<noteq> 0"
    using assms(3) by (simp only: bits_mod_8) simp
qed

lemma run_valid_aligned:
  assumes "converts argv w img" and "grid_valid img" and "width img * height img mod 4 = 0"
  shows "main argv w =
     (Returned,
      w\<lparr>files := (files w)(argv ! 2 \<mapsto> readbytes (spec_bitstream img)),
        events := events w @
          [Print (input_line (image_size img)), Open (argv ! 2),
           Print (output_line (length (readbytes (spec_bitstream img)))),
           Write (argv ! 2) (readbytes (spec_bitstream img)), Close (argv ! 2)]\<rparr>)"
proof (rule run_aligned [OF assms(1)])
  show "pack_loops img = Inr (spec_bitstream img)"
    using assms(2) by (simp add: pack_loops_eq)
  have "length (spec_bitstream img) = width img * height img * 30"
    by (simp add: length_spec_bitstream)
  then show "length (spec_bitstream img) mod 8 = 0"
    using assms(3) by (simp only: bits_mod_8)
qed

lemma size_2x2: "width image_2x2 = 2" "height image_2x2 = 2"
  by (simp_all add: image_2x2_def width_def height_def)

lemma size_3x1: "width image_3x1 = 3" "height image_3x1 = 1"
  by (simp_all add: image_3x1_def width_def height_def)

lemma size_1x2: "width image_1x2 = 1" "height image_1x2 = 2"
  by (simp_all add: image_1x2_def width_def height_def)

lemma size_1x1: "width image_1x1 = 1" "height image_1x1 = 1"
  by (simp_all add: image_1x1_def width_def height_def)

lemma argv_ex_2: "argv_ex ! 2 = ''out.rgb10''"
  by (simp add: argv_ex_def)

subsection \<open>Length of the output\<close>

text \<open>
  C2, as the script has it. For a grid of 8-bit pixels of width \<open>W\<close> and height \<open>H\<close>: when
  \<open>W * H\<close> is a multiple of 4 the run returns and the output file holds
  \<open>ceil(W * H * 30 / 8)\<close> bytes; otherwise the property \<^verbatim>\<open>bytes\<close> raises
  \<^verbatim>\<open>InterpretError\<close> and the output file holds no byte.
\<close>

theorem C2_output_length:
  assumes "converts argv w img" and "grid_valid img"
  shows "(width img * height img mod 4 = 0 \<longrightarrow>
            run_outcome argv w = Returned \<and>
            (\<exists>bs. run_output argv w = Some bs \<and>
                  length bs = (width img * height img * 30 + 7) div 8))
       \<and> (width img * height img mod 4 \<noteq> 0 \<longrightarrow>
            run_outcome argv w = Raised InterpretError \<and> run_output argv w = Some [])"
proof (intro conjI impI)
  assume al: "width img * height img mod 4 = 0"
  note run = run_valid_aligned [OF assms al]
  show "run_outcome argv w = Returned"
    by (simp add: run_outcome_def run)
  have "run_output argv w = Some (readbytes (spec_bitstream img))"
    by (simp add: run_output_def run)
  moreover have "length (readbytes (spec_bitstream img)) = (width img * height img * 30 + 7) div 8"
    by (simp add: length_readbytes length_spec_bitstream mult.commute)
  ultimately show "\<exists>bs. run_output argv w = Some bs \<and>
                  length bs = (width img * height img * 30 + 7) div 8"
    by blast
next
  assume un: "width img * height img mod 4 \<noteq> 0"
  note run = run_valid_unaligned [OF assms un]
  show "run_outcome argv w = Raised InterpretError"
    by (simp add: run_outcome_def run)
  show "run_output argv w = Some []"
    by (simp add: run_output_def run)
qed

theorem C2_output_length_witness:
  "converts argv_ex (world_of image_2x2) image_2x2 \<and> grid_valid image_2x2
   \<and> run_outcome argv_ex (world_of image_2x2) = Returned
   \<and> (\<exists>bs. run_output argv_ex (world_of image_2x2) = Some bs \<and> length bs = 15)
   \<and> converts argv_ex (world_of image_3x1) image_3x1 \<and> grid_valid image_3x1
   \<and> run_outcome argv_ex (world_of image_3x1) = Raised InterpretError
   \<and> run_output argv_ex (world_of image_3x1) = Some []"
  using C2_output_length [OF converts_world_of valid_2x2]
    C2_output_length [OF converts_world_of valid_3x1]
    converts_world_of valid_2x2 valid_3x1
  by (simp add: size_2x2 size_3x1)

theorem C2_counterexample:
  "run_outcome argv_ex (world_of image_3x1) = Raised InterpretError
   \<and> map_option length (run_output argv_ex (world_of image_3x1)) \<noteq> Some ((3 * 1 * 30 + 7) div 8)"
proof -
  have un: "width image_3x1 * height image_3x1 mod 4 \<noteq> 0"
    by (simp add: size_3x1)
  note run = run_valid_unaligned [OF converts_world_of valid_3x1 un]
  show ?thesis
    by (simp add: run_outcome_def run_output_def run)
qed

subsection \<open>The end of the stream\<close>

text \<open>
  C3, as the script has it. For a grid of 8-bit pixels whose total bit length
  \<open>W * H * 30\<close> is not a multiple of 8 there is no padded final byte: the bit array is
  left as it is, \<^verbatim>\<open>bytes\<close> raises \<^verbatim>\<open>InterpretError\<close> and the run writes nothing. When the
  total bit length is a multiple of 8 the bytes written are the bitstream unchanged.
\<close>

theorem C3_no_padding:
  assumes "converts argv w img" and "grid_valid img"
  shows "(width img * height img * 30 mod 8 \<noteq> 0 \<longrightarrow>
            (\<exists>buffer. pack_loops img = Inr buffer
                \<and> length buffer = width img * height img * 30
                \<and> getbytes buffer = Inl InterpretError)
            \<and> run_outcome argv w = Raised InterpretError
            \<and> run_events argv w =
                [Print (input_line (image_size img)), Open (argv ! 2), Close (argv ! 2)])
       \<and> (width img * height img * 30 mod 8 = 0 \<longrightarrow>
            run_outcome argv w = Returned
            \<and> (\<exists>bs. run_output argv w = Some bs \<and> spec_bits_of_bytes bs = spec_bitstream img))"
proof (intro conjI impI)
  assume un: "width img * height img * 30 mod 8 \<noteq> 0"
  then have un4: "width img * height img mod 4 \<noteq> 0"
    by (simp only: bits_mod_8) simp
  note run = run_valid_unaligned [OF assms un4]
  have "pack_loops img = Inr (spec_bitstream img)"
    using assms(2) by (simp add: pack_loops_eq)
  moreover have "length (spec_bitstream img) = width img * height img * 30"
    by (simp add: length_spec_bitstream)
  moreover from this un have "getbytes (spec_bitstream img) = Inl InterpretError"
    by (simp add: getbytes_def)
  ultimately show "\<exists>buffer. pack_loops img = Inr buffer
                \<and> length buffer = width img * height img * 30
                \<and> getbytes buffer = Inl InterpretError"
    by blast
  show "run_outcome argv w = Raised InterpretError"
    by (simp add: run_outcome_def run)
  show "run_events argv w = [Print (input_line (image_size img)), Open (argv ! 2), Close (argv ! 2)]"
    by (simp add: run_events_def run)
next
  assume al: "width img * height img * 30 mod 8 = 0"
  then have al4: "width img * height img mod 4 = 0"
    by (simp only: bits_mod_8)
  note run = run_valid_aligned [OF assms al4]
  show "run_outcome argv w = Returned"
    by (simp add: run_outcome_def run)
  have "run_output argv w = Some (readbytes (spec_bitstream img))"
    by (simp add: run_output_def run)
  moreover have "length (spec_bitstream img) mod 8 = 0"
    using al by (simp add: length_spec_bitstream mult.commute)
  then have "spec_bits_of_bytes (readbytes (spec_bitstream img)) = spec_bitstream img"
    by (rule bits_of_readbytes)
  ultimately show "\<exists>bs. run_output argv w = Some bs \<and> spec_bits_of_bytes bs = spec_bitstream img"
    by blast
qed

theorem C3_no_padding_witness:
  "converts argv_ex (world_of image_1x2) image_1x2 \<and> grid_valid image_1x2
   \<and> (\<exists>buffer. pack_loops image_1x2 = Inr buffer \<and> length buffer = 60
          \<and> getbytes buffer = Inl InterpretError)
   \<and> run_outcome argv_ex (world_of image_1x2) = Raised InterpretError
   \<and> run_events argv_ex (world_of image_1x2) =
        [Print (input_line (1, 2)), Open ''out.rgb10'', Close ''out.rgb10'']
   \<and> converts argv_ex (world_of image_2x2) image_2x2 \<and> grid_valid image_2x2
   \<and> run_outcome argv_ex (world_of image_2x2) = Returned
   \<and> (\<exists>bs. run_output argv_ex (world_of image_2x2) = Some bs
          \<and> spec_bits_of_bytes bs = spec_bitstream image_2x2)"
proof -
  have s: "image_size image_1x2 = (1, 2)"
    by (simp add: image_1x2_def)
  show ?thesis
    using C3_no_padding [OF converts_world_of valid_1x2]
      C3_no_padding [OF converts_world_of valid_2x2]
      converts_world_of valid_1x2 valid_2x2
    by (simp add: size_1x2 size_2x2 argv_ex_2 s)
qed

theorem C3_counterexample:
  "(1 * 2 * 30) mod 8 \<noteq> (0::nat)
   \<and> run_outcome argv_ex (world_of image_1x2) = Raised InterpretError
   \<and> run_output argv_ex (world_of image_1x2) = Some []"
proof -
  have un: "width image_1x2 * height image_1x2 mod 4 \<noteq> 0"
    by (simp add: size_1x2)
  note run = run_valid_unaligned [OF converts_world_of valid_1x2 un]
  show ?thesis
    by (simp add: run_outcome_def run_output_def run)
qed

subsection \<open>A single pixel\<close>

lemma uint_of_field10: "0 \<le> v \<Longrightarrow> v < 1024 \<Longrightarrow> int (uint_of (spec_field10 v)) = v"
  using uint_of_uint_bits [of v 10] by (simp add: uint_bits_10)

text \<open>
  C5, as the script has it. For the 1 by 1 image whose pixel is (255, 128, 0) the loops
  accumulate 30 bits, whose three 10-bit fields read 1020, 512 and 0. As 30 is not a
  multiple of 8, \<^verbatim>\<open>bytes\<close> raises \<^verbatim>\<open>InterpretError\<close>: the run writes no byte, padded or
  not, and the output file is left empty.
\<close>

theorem C5_single_pixel:
  assumes "converts argv w img" and "image_size img = (1, 1)"
    and "image_data img (0, 0) = (255, 128, 0)"
  shows "\<exists>buffer. pack_loops img = Inr buffer \<and> length buffer = 30
           \<and> uint_of (take 10 buffer) = 1020
           \<and> uint_of (take 10 (drop 10 buffer)) = 512
           \<and> uint_of (take 10 (drop 20 buffer)) = 0
           \<and> getbytes buffer = Inl InterpretError
           \<and> run_outcome argv w = Raised InterpretError
           \<and> run_output argv w = Some []"
proof -
  have wh: "width img = 1" "height img = 1"
    using assms(2) by (simp_all add: width_def height_def)
  have valid: "grid_valid img"
    using assms(3) by (simp add: grid_valid_def wh valid_pixel_def valid_channel_def)
  have bs: "spec_bitstream img = spec_field10 1020 @ spec_field10 512 @ spec_field10 0"
    using assms(3) by (simp add: spec_bitstream_def wh pixel_at_def spec_pixel_fields_def)
  have un: "width img * height img mod 4 \<noteq> 0"
    by (simp add: wh)
  note run = run_valid_unaligned [OF assms(1) valid un]
  have "pack_loops img = Inr (spec_bitstream img)"
    using valid by (simp add: pack_loops_eq)
  moreover have "length (spec_bitstream img) = 30"
    by (simp add: bs length_spec_field10)
  moreover have "int (uint_of (take 10 (spec_bitstream img))) = 1020"
    by (simp add: bs length_spec_field10 uint_of_field10)
  moreover have "int (uint_of (take 10 (drop 10 (spec_bitstream img)))) = 512"
    by (simp add: bs length_spec_field10 uint_of_field10)
  moreover have "int (uint_of (take 10 (drop 20 (spec_bitstream img)))) = 0"
    by (simp add: bs length_spec_field10 uint_of_field10)
  moreover have "getbytes (spec_bitstream img) = Inl InterpretError"
    by (simp add: getbytes_def bs length_spec_field10)
  moreover have "run_outcome argv w = Raised InterpretError"
    by (simp add: run_outcome_def run)
  moreover have "run_output argv w = Some []"
    by (simp add: run_output_def run)
  ultimately show ?thesis
    by (intro exI [of _ "spec_bitstream img"]) (simp del: of_nat_eq_0_iff)
qed

theorem C5_single_pixel_witness:
  "converts argv_ex (world_of image_1x1) image_1x1 \<and> image_size image_1x1 = (1, 1)
   \<and> image_data image_1x1 (0, 0) = (255, 128, 0)
   \<and> (\<exists>buffer. pack_loops image_1x1 = Inr buffer \<and> length buffer = 30
           \<and> uint_of (take 10 buffer) = 1020
           \<and> uint_of (take 10 (drop 10 buffer)) = 512
           \<and> uint_of (take 10 (drop 20 buffer)) = 0
           \<and> getbytes buffer = Inl InterpretError
           \<and> run_outcome argv_ex (world_of image_1x1) = Raised InterpretError
           \<and> run_output argv_ex (world_of image_1x1) = Some [])"
proof -
  have a: "image_size image_1x1 = (1, 1)" and b: "image_data image_1x1 (0, 0) = (255, 128, 0)"
    by (simp_all add: image_1x1_def)
  show ?thesis
    using C5_single_pixel [OF converts_world_of a b] converts_world_of a b by simp
qed

theorem C5_counterexample:
  "run_outcome argv_ex (world_of image_1x1) = Raised InterpretError
   \<and> map_option length (run_output argv_ex (world_of image_1x1)) \<noteq> Some 4"
proof -
  have un: "width image_1x1 * height image_1x1 mod 4 \<noteq> 0"
    by (simp add: size_1x1)
  note run = run_valid_unaligned [OF converts_world_of valid_1x1 un]
  show ?thesis
    by (simp add: run_outcome_def run_output_def run)
qed

subsection \<open>The empty image\<close>

lemma str_nat_0: "str_nat 0 = ''0''"
  by (subst str_nat.simps) simp

lemma zero_area:
  assumes "width img = 0 \<or> height img = 0"
  shows "pack_loops img = Inr []"
proof -
  have "grid_valid img"
    using assms by (auto simp: grid_valid_def)
  moreover have "spec_bitstream img = []"
    using assms by (auto simp: spec_bitstream_def)
  ultimately show ?thesis
    by (simp add: pack_loops_eq)
qed

text \<open>
  C6. For an image of width 0 or of height 0 the run returns: it opens the output file,
  reports 0 bytes, writes the empty byte sequence and leaves the output file empty.
\<close>

theorem C6_empty_image:
  assumes "converts argv w img" and "width img = 0 \<or> height img = 0"
  shows "main argv w =
     (Returned,
      w\<lparr>files := (files w)(argv ! 2 \<mapsto> []),
        events := events w @
          [Print (input_line (image_size img)), Open (argv ! 2),
           Print ''Output image size is 0 bytes.'', Write (argv ! 2) [], Close (argv ! 2)]\<rparr>)"
proof -
  have r: "readbytes [] = []"
    by (subst readbytes.simps) simp
  show ?thesis
    using run_aligned [OF assms(1) zero_area [OF assms(2)]]
    by (simp add: r output_line_def str_nat_0)
qed

theorem C6_empty_image_witness:
  "converts argv_ex (world_of image_0x5) image_0x5
   \<and> (width image_0x5 = 0 \<or> height image_0x5 = 0)
   \<and> run_outcome argv_ex (world_of image_0x5) = Returned
   \<and> run_output argv_ex (world_of image_0x5) = Some []
   \<and> run_events argv_ex (world_of image_0x5) =
        [Print ''Input image size is (0, 5) bytes.'', Open ''out.rgb10'',
         Print ''Output image size is 0 bytes.'', Write ''out.rgb10'' [], Close ''out.rgb10'']"
proof -
  have z: "width image_0x5 = 0 \<or> height image_0x5 = 0"
    by (simp add: image_0x5_def width_def)
  have s: "image_size image_0x5 = (0, 5)"
    by (simp add: image_0x5_def)
  have five: "str_nat 5 = ''5''"
    by (subst str_nat.simps) simp
  show ?thesis
    using C6_empty_image [OF converts_world_of z] converts_world_of z
    by (simp add: run_outcome_def run_output_def run_events_def argv_ex_2 s input_line_def
        str_size_def str_nat_0 five)
qed

subsection \<open>Channel values out of range\<close>

text \<open>
  C7. When some channel of some pixel of the grid is outside [0, 255], the constructor
  \<^verbatim>\<open>bitstring.Bits\<close> raises \<^verbatim>\<open>CreationError\<close>: the loops yield no bit array, the run ends
  with that exception, nothing is written, and the output file is left empty.
\<close>

theorem C7_invalid_channel_raises:
  assumes "converts argv w img" and "\<not> grid_valid img"
  shows "pack_loops img = Inl CreationError
       \<and> main argv w =
           (Raised CreationError,
            w\<lparr>files := (files w)(argv ! 2 \<mapsto> []),
              events := events w @
                [Print (input_line (image_size img)), Open (argv ! 2), Close (argv ! 2)]\<rparr>)"
proof -
  have p: "pack_loops img = Inl CreationError"
    using assms(2) by (simp add: pack_loops_eq)
  from p run_fail [OF assms(1) p] show ?thesis
    by simp
qed

theorem C7_invalid_channel_raises_witness:
  "converts argv_ex (world_of image_bad) image_bad \<and> \<not> grid_valid image_bad
   \<and> pack_loops image_bad = Inl CreationError
   \<and> run_outcome argv_ex (world_of image_bad) = Raised CreationError
   \<and> run_output argv_ex (world_of image_bad) = Some []
   \<and> run_events argv_ex (world_of image_bad) =
        [Print (input_line (2, 1)), Open ''out.rgb10'', Close ''out.rgb10'']"
proof -
  have s: "image_size image_bad = (2, 1)"
    by (simp add: image_bad_def)
  show ?thesis
    using C7_invalid_channel_raises [OF converts_world_of invalid_bad] converts_world_of invalid_bad
    by (simp add: run_outcome_def run_output_def run_events_def argv_ex_2 s)
qed

subsection \<open>Wrong number of arguments\<close>

text \<open>
  C9. When \<^verbatim>\<open>sys.argv\<close> holds the program name and a number of arguments other than two,
  the run prints the two usage lines and exits with code 1; it opens no file, writes no
  file and leaves every file as it was.
\<close>

theorem C9_usage:
  assumes "argv \<noteq> []" and "length argv \<noteq> 3"
  shows "main argv w =
           (Exit 1,
            w\<lparr>events := events w @
                [Print (''Usage: '' @ hd argv @ '' INPUT_FILE OUTPUT_FILE''),
                 Print ''Converts an image to CDI 10-bit RGB format.'']\<rparr>)
       \<and> exit_code (run_outcome argv w) = 1
       \<and> files (snd (main argv w)) = files w"
  using assms
  by (cases argv) (simp_all add: main_def run_outcome_def print_def usage_line_def)

theorem C9_usage_witness:
  "[''convert_image_to_rgb10.py'', ''in.png''] \<noteq> []
   \<and> length [''convert_image_to_rgb10.py'', ''in.png''] \<noteq> 3
   \<and> main [''convert_image_to_rgb10.py'', ''in.png''] (world_of image_2x2) =
        (Exit 1,
         (world_of image_2x2)\<lparr>events :=
            [Print ''Usage: convert_image_to_rgb10.py INPUT_FILE OUTPUT_FILE'',
             Print ''Converts an image to CDI 10-bit RGB format.'']\<rparr>)
   \<and> files (snd (main [''convert_image_to_rgb10.py'', ''in.png''] (world_of image_2x2))) =
        files (world_of image_2x2)"
proof -
  have e: "events (world_of image_2x2) = []"
    by (simp add: world_of_def)
  show ?thesis
    using C9_usage [of "[''convert_image_to_rgb10.py'', ''in.png'']" "world_of image_2x2"]
    by (simp add: e)
qed

subsection \<open>Determinism\<close>

lemma same_grid_valid:
  assumes "same_grid a b"
  shows "grid_valid a = grid_valid b"
  using assms by (auto simp: same_grid_def grid_valid_def width_def height_def)

lemma same_grid_pixel_at:
  assumes "same_grid a b" and "N < width a * height a"
  shows "pixel_at a N = pixel_at b N"
proof -
  have w: "0 < width a"
    using assms(2) by (cases "width a") simp_all
  then have x: "N mod width a < width a"
    by simp
  have "N < height a * width a"
    using assms(2) by (simp add: mult.commute)
  then have y: "N div width a < height a"
    by (simp add: less_mult_imp_div_less)
  have "image_size a = image_size b"
    using assms(1) by (simp add: same_grid_def)
  moreover have "image_data a (N mod width a, N div width a) = image_data b (N mod width a, N div width a)"
    using assms(1) x y by (simp add: same_grid_def)
  ultimately show ?thesis
    by (simp add: pixel_at_def width_def)
qed

lemma same_grid_bitstream:
  assumes "same_grid a b"
  shows "spec_bitstream a = spec_bitstream b"
proof -
  have s: "width a = width b" "height a = height b"
    using assms by (simp_all add: same_grid_def width_def height_def)
  have "map (\<lambda>N. spec_pixel_fields (pixel_at a N)) [0..<width a * height a] =
        map (\<lambda>N. spec_pixel_fields (pixel_at b N)) [0..<width a * height a]"
    by (rule map_cong) (simp_all add: same_grid_pixel_at [OF assms])
  then show ?thesis
    unfolding spec_bitstream_def by (simp only: s [symmetric])
qed

lemma same_grid_pack_loops:
  assumes "same_grid a b"
  shows "pack_loops a = pack_loops b"
  by (simp add: pack_loops_eq same_grid_valid [OF assms] same_grid_bitstream [OF assms])

lemma run_outcome_of_loops:
  assumes "converts argv w img"
  shows "run_outcome argv w =
     (case pack_loops img of Inl e \<Rightarrow> Raised e
      | Inr buffer \<Rightarrow> if length buffer mod 8 \<noteq> 0 then Raised InterpretError else Returned)"
  by (simp add: run_outcome_def main_converts [OF assms] Let_def split: sum.split)

lemma run_output_of_loops:
  assumes "converts argv w img"
  shows "run_output argv w =
     (case pack_loops img of Inl e \<Rightarrow> Some []
      | Inr buffer \<Rightarrow> if length buffer mod 8 \<noteq> 0 then Some [] else Some (readbytes buffer))"
  by (simp add: run_output_def main_converts [OF assms] Let_def open_wb_def print_def close_def
      file_write_def split: sum.split)

text \<open>
  C8. The bytes a run leaves in its output file, and the way the run ends, are a function
  of the dimensions and of the pixels inside the grid alone: two runs on images of the
  same size and the same pixels agree on both, whatever the file names, the earlier
  content of the output file, the console history and the values outside the grid.
\<close>

theorem C8_deterministic:
  assumes "converts argv w a" and "converts argv' w' b" and "same_grid a b"
  shows "pack_loops a = pack_loops b
       \<and> run_outcome argv w = run_outcome argv' w'
       \<and> run_output argv w = run_output argv' w'"
  by (simp add: run_outcome_of_loops [OF assms(1)] run_outcome_of_loops [OF assms(2)]
      run_output_of_loops [OF assms(1)] run_output_of_loops [OF assms(2)]
      same_grid_pack_loops [OF assms(3)])

lemma same_grid_2x2: "same_grid image_2x2 image_2x2'"
  by (simp add: same_grid_def image_2x2_def image_2x2'_def width_def height_def)

theorem C8_deterministic_witness:
  "converts argv_ex (world_of image_2x2) image_2x2
   \<and> converts argv_ex' (world_of' image_2x2') image_2x2'
   \<and> same_grid image_2x2 image_2x2'
   \<and> pack_loops image_2x2 = pack_loops image_2x2'
   \<and> run_outcome argv_ex (world_of image_2x2) = run_outcome argv_ex' (world_of' image_2x2')
   \<and> run_output argv_ex (world_of image_2x2) = run_output argv_ex' (world_of' image_2x2')"
  using C8_deterministic [OF converts_world_of converts_world_of' same_grid_2x2]
    converts_world_of converts_world_of' same_grid_2x2
  by simp

subsection \<open>The output file of a run that fails\<close>

text \<open>
  C10. A run that gets as far as the loops first prints the input size and opens the
  output file, which creates or truncates it, whatever the pixels are. After that it
  either closes the file without a write, leaving it empty, or, when the whole grid has
  been accumulated and \<^verbatim>\<open>bytes\<close> succeeds, prints the output size and writes once. For a
  grid of 8-bit pixels whose pixel count \<open>W * H\<close> is not a multiple of 4, \<^verbatim>\<open>bytes\<close> raises
  \<^verbatim>\<open>InterpretError\<close>: nothing is written and the truncated output file is left empty.
\<close>

theorem C10_truncated_output:
  assumes "converts argv w img"
  shows "(\<exists>rest. run_events argv w =
              [Print (input_line (image_size img)), Open (argv ! 2)] @ rest
            \<and> (rest = [Close (argv ! 2)] \<and> run_outcome argv w \<noteq> Returned
                 \<and> run_output argv w = Some []
               \<or> (\<exists>buffer bs. pack_loops img = Inr buffer \<and> getbytes buffer = Inr bs
                     \<and> rest = [Print (output_line (length bs)), Write (argv ! 2) bs, Close (argv ! 2)]
                     \<and> run_outcome argv w = Returned \<and> run_output argv w = Some bs)))
       \<and> (grid_valid img \<and> width img * height img mod 4 \<noteq> 0 \<longrightarrow>
            main argv w =
              (Raised InterpretError,
               w\<lparr>files := (files w)(argv ! 2 \<mapsto> []),
                 events := events w @
                   [Print (input_line (image_size img)), Open (argv ! 2), Close (argv ! 2)]\<rparr>))"
proof (intro conjI impI)
  show "\<exists>rest. run_events argv w =
              [Print (input_line (image_size img)), Open (argv ! 2)] @ rest
            \<and> (rest = [Close (argv ! 2)] \<and> run_outcome argv w \<noteq> Returned
                 \<and> run_output argv w = Some []
               \<or> (\<exists>buffer bs. pack_loops img = Inr buffer \<and> getbytes buffer = Inr bs
                     \<and> rest = [Print (output_line (length bs)), Write (argv ! 2) bs, Close (argv ! 2)]
                     \<and> run_outcome argv w = Returned \<and> run_output argv w = Some bs))"
  proof (cases "pack_loops img")
    case (Inl e)
    note run = run_fail [OF assms Inl]
    show ?thesis
      by (rule exI [of _ "[Close (argv ! 2)]"])
        (simp add: run_events_def run_outcome_def run_output_def run)
  next
    case (Inr buffer)
    show ?thesis
    proof (cases "length buffer mod 8 = 0")
      case True
      note run = run_aligned [OF assms Inr True]
      have g: "getbytes buffer = Inr (readbytes buffer)"
        using True by (simp add: getbytes_def)
      show ?thesis
        by (rule exI [of _ "[Print (output_line (length (readbytes buffer))),
              Write (argv ! 2) (readbytes buffer), Close (argv ! 2)]"])
          (simp add: run_events_def run_outcome_def run_output_def run Inr g)
    next
      case False
      note run = run_unaligned [OF assms Inr False]
      show ?thesis
        by (rule exI [of _ "[Close (argv ! 2)]"])
          (simp add: run_events_def run_outcome_def run_output_def run)
    qed
  qed
next
  assume "grid_valid img \<and> width img * height img mod 4 \<noteq> 0"
  then show "main argv w =
              (Raised InterpretError,
               w\<lparr>files := (files w)(argv ! 2 \<mapsto> []),
                 events := events w @
                   [Print (input_line (image_size img)), Open (argv ! 2), Close (argv ! 2)]\<rparr>)"
    using run_valid_unaligned [OF assms] by simp
qed

theorem C10_truncated_output_witness:
  "converts argv_ex (world_of image_3x1) image_3x1
   \<and> grid_valid image_3x1 \<and> width image_3x1 * height image_3x1 mod 4 \<noteq> 0
   \<and> files (world_of image_3x1) ''out.rgb10'' = Some [1, 2, 3]
   \<and> main argv_ex (world_of image_3x1) =
       (Raised InterpretError,
        (world_of image_3x1)\<lparr>files := [''out.rgb10'' \<mapsto> []],
           events := [Print (input_line (3, 1)), Open ''out.rgb10'', Close ''out.rgb10'']\<rparr>)"
proof -
  have s: "image_size image_3x1 = (3, 1)"
    by (simp add: image_3x1_def)
  have f: "files (world_of image_3x1) = [''out.rgb10'' \<mapsto> [1, 2, 3]]"
    and e: "events (world_of image_3x1) = []"
    by (simp_all add: world_of_def)
  show ?thesis
    using C10_truncated_output [OF converts_world_of, of image_3x1] converts_world_of valid_3x1
    by (simp add: size_3x1 argv_ex_2 s f e)
qed

subsection \<open>Scaling of a channel\<close>

lemma sample_props:
  assumes "0 \<le> c" and "c \<le> 255"
  shows "length (spec_field10 (c * 4)) = 10 \<and> int (uint_of (spec_field10 (c * 4))) = c * 4
       \<and> 4 dvd uint_of (spec_field10 (c * 4)) \<and> uint_of (spec_field10 (c * 4)) \<le> 1020
       \<and> uint_of (spec_field10 (c * 4)) \<notin> {1021, 1022, 1023}"
proof -
  have val: "int (uint_of (spec_field10 (c * 4))) = c * 4"
    using assms by (intro uint_of_field10) simp_all
  then have "int 4 dvd int (uint_of (spec_field10 (c * 4)))"
    by simp
  then have dv: "4 dvd uint_of (spec_field10 (c * 4))"
    by (simp only: int_dvd_int_iff)
  have le: "uint_of (spec_field10 (c * 4)) \<le> 1020"
    using val assms by linarith
  then have "uint_of (spec_field10 (c * 4)) \<notin> {1021, 1022, 1023}"
    by auto
  with val dv le show ?thesis
    by (simp add: length_spec_field10)
qed

text \<open>
  C4. For channel values \<open>r\<close>, \<open>g\<close>, \<open>b\<close> in [0, 255] the three constructor calls of
  the loop body succeed, the body appends their three 10-bit samples to the bit array,
  and in the bit array that the loops build for a grid these are the fields of every
  pixel \<open>(r, g, b)\<close>, at bit offsets \<open>N * 30\<close>, \<open>N * 30 + 10\<close> and \<open>N * 30 + 20\<close>. Each sample
  reads back as four times its channel value: a multiple of 4 that lies in [0, 1020], so
  that 1021, 1022 and 1023 are never produced.
\<close>

theorem C4_sample_is_four_times_channel:
  assumes "0 \<le> r \<and> r \<le> 255" and "0 \<le> g \<and> g \<le> 255" and "0 \<le> b \<and> b \<le> 255"
  shows "\<exists>sr sg sb.
           Bits (r * 4) 10 = Inr sr \<and> Bits (g * 4) 10 = Inr sg \<and> Bits (b * 4) 10 = Inr sb
         \<and> (\<forall>buffer. pixel_body (r, g, b) buffer = Inr (buffer @ sr @ sg @ sb))
         \<and> (\<forall>img N. grid_valid img \<and> N < width img * height img \<and> pixel_at img N = (r, g, b) \<longrightarrow>
               (\<exists>buffer. pack_loops img = Inr buffer
                  \<and> take 10 (drop (N * 30) buffer) = sr
                  \<and> take 10 (drop (N * 30 + 10) buffer) = sg
                  \<and> take 10 (drop (N * 30 + 20) buffer) = sb))
         \<and> int (uint_of sr) = r * 4 \<and> int (uint_of sg) = g * 4 \<and> int (uint_of sb) = b * 4
         \<and> (\<forall>s \<in> {sr, sg, sb}. length s = 10 \<and> 4 dvd uint_of s \<and> uint_of s \<le> 1020
                \<and> uint_of s \<notin> {1021, 1022, 1023})"
proof -
  let ?sr = "spec_field10 (r * 4)" and ?sg = "spec_field10 (g * 4)" and ?sb = "spec_field10 (b * 4)"
  have vr: "valid_channel r" and vg: "valid_channel g" and vb: "valid_channel b"
    using assms by (simp_all add: valid_channel_def)
  have bits: "Bits (r * 4) 10 = Inr ?sr" "Bits (g * 4) 10 = Inr ?sg" "Bits (b * 4) 10 = Inr ?sb"
    using vr vg vb by (simp_all add: Bits_channel)
  have body: "pixel_body (r, g, b) buffer = Inr (buffer @ ?sr @ ?sg @ ?sb)" for buffer
    using vr vg vb by (simp add: pixel_body_eq valid_pixel_def spec_pixel_fields_def)
  have loops: "\<exists>buffer. pack_loops img = Inr buffer
                  \<and> take 10 (drop (N * 30) buffer) = ?sr
                  \<and> take 10 (drop (N * 30 + 10) buffer) = ?sg
                  \<and> take 10 (drop (N * 30 + 20) buffer) = ?sb"
    if "grid_valid img \<and> N < width img * height img \<and> pixel_at img N = (r, g, b)" for img N
  proof -
    from that have v: "grid_valid img" and n: "N < width img * height img"
      and p: "pixel_at img N = (r, g, b)"
      by simp_all
    have "take 30 (drop (N * 30) (spec_bitstream img)) = ?sr @ ?sg @ ?sb"
      using spec_bitstream_span [OF n] p by (simp add: spec_pixel_fields_def mult.commute)
    from field_of_span [OF this] have
      "take 10 (drop (N * 30) (spec_bitstream img)) = ?sr
       \<and> take 10 (drop (N * 30 + 10) (spec_bitstream img)) = ?sg
       \<and> take 10 (drop (N * 30 + 20) (spec_bitstream img)) = ?sb"
      by (simp add: length_spec_field10)
    moreover have "pack_loops img = Inr (spec_bitstream img)"
      using v by (simp add: pack_loops_eq)
    ultimately show ?thesis by blast
  qed
  have pr: "length ?sr = 10 \<and> int (uint_of ?sr) = r * 4
       \<and> 4 dvd uint_of ?sr \<and> uint_of ?sr \<le> 1020 \<and> uint_of ?sr \<notin> {1021, 1022, 1023}"
    using assms(1) by (intro sample_props) simp_all
  have pg: "length ?sg = 10 \<and> int (uint_of ?sg) = g * 4
       \<and> 4 dvd uint_of ?sg \<and> uint_of ?sg \<le> 1020 \<and> uint_of ?sg \<notin> {1021, 1022, 1023}"
    using assms(2) by (intro sample_props) simp_all
  have pb: "length ?sb = 10 \<and> int (uint_of ?sb) = b * 4
       \<and> 4 dvd uint_of ?sb \<and> uint_of ?sb \<le> 1020 \<and> uint_of ?sb \<notin> {1021, 1022, 1023}"
    using assms(3) by (intro sample_props) simp_all
  have all: "\<forall>s \<in> {?sr, ?sg, ?sb}. length s = 10 \<and> 4 dvd uint_of s \<and> uint_of s \<le> 1020
                \<and> uint_of s \<notin> {1021, 1022, 1023}"
    using pr pg pb by blast
  show ?thesis
    apply (rule exI [of _ ?sr], rule exI [of _ ?sg], rule exI [of _ ?sb])
    using bits body loops pr pg pb all by blast
qed

theorem C4_sample_is_four_times_channel_witness:
  "((0::int) \<le> 255 \<and> (255::int) \<le> 255) \<and> ((0::int) \<le> 128 \<and> (128::int) \<le> 255)
   \<and> ((0::int) \<le> 0 \<and> (0::int) \<le> 255)
   \<and> grid_valid image_1x1 \<and> 0 < width image_1x1 * height image_1x1
   \<and> pixel_at image_1x1 0 = (255, 128, 0)
   \<and> (\<exists>sr sg sb buffer.
         pixel_body (255, 128, 0) [True, False] = Inr ([True, False] @ sr @ sg @ sb)
       \<and> pack_loops image_1x1 = Inr buffer
       \<and> take 10 buffer = sr \<and> take 10 (drop 10 buffer) = sg \<and> take 10 (drop 20 buffer) = sb
       \<and> length sr = 10 \<and> length sg = 10 \<and> length sb = 10
       \<and> uint_of sr = 1020 \<and> uint_of sg = 512 \<and> uint_of sb = 0)"
proof -
  have p: "pixel_at image_1x1 0 = (255, 128, 0)"
    by (simp add: pixel_at_def image_1x1_def)
  have n: "0 < width image_1x1 * height image_1x1"
    by (simp add: size_1x1)
  from C4_sample_is_four_times_channel [of 255 128 0]
  obtain sr sg sb where
    body: "\<forall>buffer. pixel_body (255, 128, 0) buffer = Inr (buffer @ sr @ sg @ sb)"
    and loops: "\<forall>img N. grid_valid img \<and> N < width img * height img \<and> pixel_at img N = (255, 128, 0) \<longrightarrow>
               (\<exists>buffer. pack_loops img = Inr buffer
                  \<and> take 10 (drop (N * 30) buffer) = sr
                  \<and> take 10 (drop (N * 30 + 10) buffer) = sg
                  \<and> take 10 (drop (N * 30 + 20) buffer) = sb)"
    and val: "int (uint_of sr) = 255 * 4" "int (uint_of sg) = 128 * 4" "int (uint_of sb) = 0 * 4"
    and len: "\<forall>s \<in> {sr, sg, sb}. length s = 10 \<and> 4 dvd uint_of s \<and> uint_of s \<le> 1020
                \<and> uint_of s \<notin> {1021, 1022, 1023}"
    by auto
  from loops valid_1x1 n p obtain buffer where
    "pack_loops image_1x1 = Inr buffer \<and> take 10 (drop (0 * 30) buffer) = sr
       \<and> take 10 (drop (0 * 30 + 10) buffer) = sg \<and> take 10 (drop (0 * 30 + 20) buffer) = sb"
    by blast
  then have b: "pack_loops image_1x1 = Inr buffer \<and> take 10 buffer = sr
       \<and> take 10 (drop 10 buffer) = sg \<and> take 10 (drop 20 buffer) = sb"
    by simp
  have v: "uint_of sr = 1020" "uint_of sg = 512" "uint_of sb = 0"
    using val by simp_all
  have l: "length sr = 10" "length sg = 10" "length sb = 10"
    using len by simp_all
  from body have "pixel_body (255, 128, 0) [True, False] = Inr ([True, False] @ sr @ sg @ sb)"
    by blast
  with b v l valid_1x1 n p show ?thesis
    by auto
qed

end
